theory Spec2Isabelle
  imports Main
begin

unbundle bit_operations_syntax

section \<open>Text\<close>

text \<open>
  The assembler of \<^verbatim>\<open>assembler.py\<close> works on Python strings. A string is modelled as a
  \<^typ>\<open>string\<close>; a \<^typ>\<open>char\<close> stands for the code point of the same number, so the model
  covers text over the code points 0..255. Integers are Python's unbounded integers,
  modelled as \<^typ>\<open>int\<close>.
\<close>

text \<open>
  \<^verbatim>\<open>str.isspace\<close> for one character, which is also what \<^verbatim>\<open>str.strip()\<close> and the
  class \<^verbatim>\<open>\s\<close> of \<^verbatim>\<open>re\<close> on a \<^verbatim>\<open>str\<close> pattern take as white space: in the range
  0..255 these are TAB, LF, VT, FF, CR, the separators FS, GS, RS, US, the space, NEL
  (0x85) and the no-break space (0xA0).
\<close>

definition isspace :: "char \<Rightarrow> bool" where
  "isspace c = (of_char c \<in> set [9, 10, 11, 12, 13, 28, 29, 30, 31, 32, 133, 160 :: nat])"

text \<open>\<^verbatim>\<open>s.strip()\<close>: white space removed at both ends.\<close>

definition strip :: "string \<Rightarrow> string" where
  "strip s = rev (dropWhile isspace (rev (dropWhile isspace s)))"

text \<open>
  \<^verbatim>\<open>s.split(sep)\<close> for a separator of one character: every occurrence separates, so
  \<open>n\<close> occurrences give \<open>n + 1\<close> pieces, some of them possibly empty.
\<close>

fun split_chr :: "char \<Rightarrow> string \<Rightarrow> string list" where
  "split_chr sep [] = [[]]"
| "split_chr sep (c # cs) =
     (if c = sep then [] # split_chr sep cs
      else (case split_chr sep cs of
              [] \<Rightarrow> [[c]]
            | piece # pieces \<Rightarrow> (c # piece) # pieces))"

section \<open>The scan pass\<close>

text \<open>
  \<^verbatim>\<open>parse_source_code\<close> reads the lines of the file and then runs a loop over them with
  three variables: the dictionary \<^verbatim>\<open>labels\<close>, the list \<^verbatim>\<open>instructions\<close> and the
  counter \<^verbatim>\<open>address\<close>. Reading the file is outside the model: the functions below take
  the list of lines. \<open>scan_line\<close> is one iteration of the loop body,
  \<^verbatim>\<open>
    line = line.split('#')[0].strip()
    if not line: continue
    if ':' in line:
        label = line.split(':')[0].strip()
        labels[label] = address
        line = line.split(':')[1].strip()
    if line:
        instructions.append((address, line))
        address += 4
  \<close>
  The two subscripts cannot be out of range: a split has at least one piece, and at
  least two when the separator occurs (lemmas \<open>split_chr_length\<close> and
  \<open>split_chr_two\<close> below).
\<close>

type_synonym label_table = "string \<rightharpoonup> int"
type_synonym scan_state = "label_table \<times> (int \<times> string) list \<times> int"

fun scan_line :: "scan_state \<Rightarrow> string \<Rightarrow> scan_state" where
  "scan_line (labels, instructions, address) raw =
     (let line = strip (split_chr CHR ''#'' raw ! 0) in
      if line = [] then (labels, instructions, address)
      else
        let labels' = (if CHR '':'' \<in> set line
                       then labels(strip (split_chr CHR '':'' line ! 0) \<mapsto> address)
                       else labels);
            line' = (if CHR '':'' \<in> set line
                     then strip (split_chr CHR '':'' line ! 1)
                     else line)
        in if line' = [] then (labels', instructions, address)
           else (labels', instructions @ [(address, line')], address + 4))"

declare scan_line.simps [simp del]

text \<open>
  The start address is \<^verbatim>\<open>0x00400000\<close>. \<open>scan\<close> runs the loop from the initial values
  of the three variables and returns their final values; \<open>parse_source_code\<close> returns
  the first two of them, as the source does.
\<close>

definition base_address :: int where
  "base_address = 4194304"

definition scan :: "string list \<Rightarrow> scan_state" where
  "scan lines = foldl scan_line (Map.empty, [], base_address) lines"

definition parse_source_code :: "string list \<Rightarrow> label_table \<times> (int \<times> string) list" where
  "parse_source_code lines = (case scan lines of (labels, instructions, address) \<Rightarrow> (labels, instructions))"

section \<open>The encoder\<close>

text \<open>
  The encoder raises no exception of its own; what can go wrong are Python's own
  exceptions: \<^verbatim>\<open>ValueError\<close> of \<^verbatim>\<open>int()\<close>, \<^verbatim>\<open>IndexError\<close> of a subscript past
  the end of a list, \<^verbatim>\<open>KeyError\<close> of a dictionary lookup. A computation that may raise
  returns a sum, \<open>Inl\<close> the exception; \<open>then_py\<close> runs the next statement when the
  previous one did not raise.
\<close>

datatype py_error = ValueError | IndexError | KeyError

definition then_py :: "py_error + 'a \<Rightarrow> ('a \<Rightarrow> py_error + 'b) \<Rightarrow> py_error + 'b" where
  "then_py m f = (case m of Inl e \<Rightarrow> Inl e | Inr x \<Rightarrow> f x)"

text \<open>\<^verbatim>\<open>xs[i]\<close> for an index that is not negative, and \<^verbatim>\<open>d[k]\<close> of a dictionary.\<close>

definition py_index :: "'a list \<Rightarrow> nat \<Rightarrow> py_error + 'a" where
  "py_index xs i = (if i < length xs then Inr (xs ! i) else Inl IndexError)"

definition py_lookup :: "('k \<rightharpoonup> 'v) \<Rightarrow> 'k \<Rightarrow> py_error + 'v" where
  "py_lookup d k = (case d k of None \<Rightarrow> Inl KeyError | Some v \<Rightarrow> Inr v)"

text \<open>
  \<^verbatim>\<open>s.upper()\<close>. The letters \<open>a\<close>..\<open>z\<close> become \<open>A\<close>..\<open>Z\<close>. The result is only
  ever looked up in the mnemonic tables, whose keys are ASCII capitals, and the model
  leaves every other character as it is: Python's upper case of a code point of
  128..255 is again outside ASCII, but for U+00DF, which becomes \<^verbatim>\<open>SS\<close>, and no key
  contains \<^verbatim>\<open>SS\<close>; so the lookups of the model and of Python agree.
\<close>

definition upper_chr :: "char \<Rightarrow> char" where
  "upper_chr c =
     (if 97 \<le> (of_char c :: nat) \<and> (of_char c :: nat) \<le> 122
      then char_of ((of_char c :: nat) - 32) else c)"

definition upper :: "string \<Rightarrow> string" where
  "upper s = map upper_chr s"

text \<open>
  \<^verbatim>\<open>re.split(r'[,\s]\s*', s)\<close>: a separator is a comma or a white space character
  together with all the white space that follows it; the pieces between the separators
  are returned, empty ones included.
\<close>

function re_split :: "string \<Rightarrow> string list" where
  "re_split [] = [[]]"
| "re_split (c # cs) =
     (if c = CHR '','' \<or> isspace c then [] # re_split (dropWhile isspace cs)
      else (case re_split cs of
              [] \<Rightarrow> [[c]]
            | piece # pieces \<Rightarrow> (c # piece) # pieces))"
  by pat_completeness auto
termination
  by (relation "measure length") (auto simp: less_Suc_eq_le length_dropWhile_le)

text \<open>
  \<^verbatim>\<open>int(s)\<close> of a string, base ten: white space at both ends is dropped, then comes an
  optional sign and then decimal digits, where single underscores may stand between
  digits. In the range 0..255 the decimal digits are \<open>0\<close>..\<open>9\<close>. Anything else is a
  \<^verbatim>\<open>ValueError\<close>. Two details of CPython are part of the model: the white space that
  \<^verbatim>\<open>int()\<close> drops is that of \<^verbatim>\<open>str.isspace\<close> without the four separators FS, GS, RS
  and US; and a literal of more than 4300 digits is refused (the default of
  \<^verbatim>\<open>sys.set_int_max_str_digits\<close> since CPython 3.11).
\<close>

definition int_space :: "char \<Rightarrow> bool" where
  "int_space c = (of_char c \<in> set [9, 10, 11, 12, 13, 32, 133, 160 :: nat])"

definition int_strip :: "string \<Rightarrow> string" where
  "int_strip s = rev (dropWhile int_space (rev (dropWhile int_space s)))"

definition is_digit :: "char \<Rightarrow> bool" where
  "is_digit c = (48 \<le> (of_char c :: nat) \<and> (of_char c :: nat) \<le> 57)"

definition digit_val :: "char \<Rightarrow> int" where
  "digit_val c = int (of_char c) - 48"

fun digits_ok :: "string \<Rightarrow> bool" where
  "digits_ok [] = False"
| "digits_ok (c # cs) =
     (is_digit c \<and>
      (case cs of
         [] \<Rightarrow> True
       | d # ds \<Rightarrow> if d = CHR ''_'' then digits_ok ds else digits_ok cs))"

definition digits_value :: "string \<Rightarrow> int" where
  "digits_value s = foldl (\<lambda>acc c. if c = CHR ''_'' then acc else 10 * acc + digit_val c) 0 s"

definition literal_ok :: "string \<Rightarrow> bool" where
  "literal_ok ds = (digits_ok ds \<and> length (filter is_digit ds) \<le> 4300)"

definition py_int :: "string \<Rightarrow> py_error + int" where
  "py_int s =
     (case int_strip s of
        [] \<Rightarrow> Inl ValueError
      | c # cs \<Rightarrow>
          if c = CHR ''-'' then (if literal_ok cs then Inr (- digits_value cs) else Inl ValueError)
          else if c = CHR ''+'' then (if literal_ok cs then Inr (digits_value cs) else Inl ValueError)
          else if literal_ok (c # cs) then Inr (digits_value (c # cs))
          else Inl ValueError)"

text \<open>
  \<^verbatim>\<open>format(n, '0Wb')\<close>: the binary digits of \<open>n\<close>, filled with zeros on the left up
  to the width \<open>W\<close>, and never cut: a number with more digits gives a longer string. A
  negative number is written as a minus sign followed by the digits of its absolute
  value, the sign counting for the width.
\<close>

definition bit_chr :: "nat \<Rightarrow> char" where
  "bit_chr b = (if b = 0 then CHR ''0'' else CHR ''1'')"

fun bin_digits :: "nat \<Rightarrow> string" where
  "bin_digits n = (if n < 2 then [bit_chr n] else bin_digits (n div 2) @ [bit_chr (n mod 2)])"

declare bin_digits.simps [simp del]

definition zfill :: "nat \<Rightarrow> string \<Rightarrow> string" where
  "zfill w s = replicate (w - length s) CHR ''0'' @ s"

definition format_b :: "nat \<Rightarrow> int \<Rightarrow> string" where
  "format_b w n =
     (if n < 0 then CHR ''-'' # zfill (w - 1) (bin_digits (nat (- n)))
      else zfill w (bin_digits (nat n)))"

text \<open>The dictionary \<^verbatim>\<open>instruction_set\<close>, one table for each of its three keys.\<close>

definition instruction_set_R :: "string \<rightharpoonup> string" where
  "instruction_set_R = map_of
     [(''ADD'', ''100000''), (''SUB'', ''100010''), (''AND'', ''100100''), (''OR'', ''100101''),
      (''SLL'', ''000000''), (''SRL'', ''000010''), (''SLLV'', ''000100''), (''SRLV'', ''000110'')]"

definition instruction_set_I :: "string \<rightharpoonup> string" where
  "instruction_set_I = map_of
     [(''ADDI'', ''001000''), (''ANDI'', ''001100''), (''LW'', ''100011''), (''SW'', ''101011''),
      (''BEQ'', ''000100''), (''BNE'', ''000101''), (''BLEZ'', ''000110''), (''BGTZ'', ''000111'')]"

definition instruction_set_J :: "string \<rightharpoonup> string" where
  "instruction_set_J = map_of [(''J'', ''000010'')]"

text \<open>\<^verbatim>\<open>reg_to_bin\<close>: \<^verbatim>\<open>reg[1:]\<close> is the token without its first character.\<close>

definition reg_to_bin :: "string \<Rightarrow> py_error + string" where
  "reg_to_bin reg = then_py (py_int (drop 1 reg)) (\<lambda>reg_num. Inr (format_b 5 reg_num))"

text \<open>
  \<^verbatim>\<open>instruction_to_machine_code\<close>. The function returns a string of binary digits, or
  raises, or comes to the end of its \<^verbatim>\<open>if\<close>/\<^verbatim>\<open>elif\<close> chain without a
  \<^verbatim>\<open>return\<close>, which in Python returns \<^verbatim>\<open>None\<close>: the result is \<open>Inr (Some word)\<close>,
  \<open>Inl exception\<close> or \<open>Inr None\<close>. The statements are in the order of the source, so
  the exception is that of the first statement that raises. The two \<^verbatim>\<open>print\<close> calls
  only write to the standard output and are left out. \<open>encode_R\<close>, \<open>encode_I\<close> and
  \<open>encode_J\<close> are the bodies of the three branches of the \<^verbatim>\<open>if\<close>/\<^verbatim>\<open>elif\<close> chain.
\<close>

definition encode_R :: "string \<Rightarrow> string list \<Rightarrow> py_error + string option" where
  "encode_R opcode rest =
     then_py (py_index rest 0) (\<lambda>r0. then_py (reg_to_bin r0) (\<lambda>rd.
     then_py (py_index rest 1) (\<lambda>r1. then_py (reg_to_bin r1) (\<lambda>rs.
     then_py (py_index rest 2) (\<lambda>r2. then_py (reg_to_bin r2) (\<lambda>rt.
     then_py (if upper opcode \<in> set [''SLL'', ''SRL'']
              then then_py (py_index rest 3) (\<lambda>r3. then_py (py_int r3) (\<lambda>n. Inr (format_b 5 n)))
              else Inr ''00000'') (\<lambda>shamt.
     then_py (py_lookup instruction_set_R (upper opcode)) (\<lambda>funct.
     Inr (Some (''000000'' @ rs @ rt @ rd @ shamt @ funct))))))))))"

definition encode_I :: "string \<Rightarrow> string list \<Rightarrow> label_table \<Rightarrow> int \<Rightarrow> py_error + string option" where
  "encode_I opcode rest labels current_address =
     then_py (py_index rest 0) (\<lambda>r0. then_py (reg_to_bin r0) (\<lambda>rt.
     then_py (py_index rest 1) (\<lambda>r1. then_py (reg_to_bin r1) (\<lambda>rs.
     if upper opcode \<in> set [''LW'', ''SW''] then
       then_py (py_index rest 2) (\<lambda>r2. then_py (py_int r2) (\<lambda>offset.
       then_py (py_lookup instruction_set_I (upper opcode)) (\<lambda>op.
       Inr (Some (op @ rs @ rt @ format_b 16 offset)))))
     else if upper opcode \<in> set [''BEQ'', ''BNE''] then
       then_py (py_index rest 2) (\<lambda>r2. then_py (py_lookup labels r2) (\<lambda>target.
       let offset = drop_bit 2 (target - current_address - 4) in
       then_py (py_lookup instruction_set_I (upper opcode)) (\<lambda>op.
       Inr (Some (op @ rs @ rt @ format_b 16 (offset AND 65535))))))
     else
       then_py (py_index rest 2) (\<lambda>r2. then_py (py_int r2) (\<lambda>n.
       let immediate = n AND 65535 in
       then_py (py_lookup instruction_set_I (upper opcode)) (\<lambda>op.
       Inr (Some (op @ rs @ rt @ format_b 16 immediate)))))))))"

definition encode_J :: "string \<Rightarrow> string list \<Rightarrow> label_table \<Rightarrow> py_error + string option" where
  "encode_J opcode rest labels =
     then_py (py_index rest 0) (\<lambda>r0. then_py (py_lookup labels r0) (\<lambda>target.
     let address = drop_bit 2 target in
     then_py (py_lookup instruction_set_J (upper opcode)) (\<lambda>op.
     Inr (Some (op @ format_b 26 address)))))"

definition instruction_to_machine_code :: "string \<Rightarrow> label_table \<Rightarrow> int \<Rightarrow> py_error + string option" where
  "instruction_to_machine_code instruction labels current_address =
     (let parts = re_split instruction in
      then_py (py_index parts 0) (\<lambda>opcode.
      let rest = drop 1 parts in
      if upper opcode \<in> dom instruction_set_R then encode_R opcode rest
      else if upper opcode \<in> dom instruction_set_I then encode_I opcode rest labels current_address
      else if upper opcode \<in> dom instruction_set_J then encode_J opcode rest labels
      else Inr None))"

section \<open>Fields of a word\<close>

text \<open>
  What the statements below say about an encoded word is said with these notions, which
  are not the program's: the field of width \<open>w\<close> that holds the number \<open>n\<close> (its \<open>w\<close>
  low bits, the most significant first), and the reading of a field as an unsigned
  number and as a number in two's complement.
\<close>

fun bits_field :: "nat \<Rightarrow> nat \<Rightarrow> string" where
  "bits_field 0 n = []"
| "bits_field (Suc w) n = bits_field w (n div 2) @ [if odd n then CHR ''1'' else CHR ''0'']"

definition field_value :: "string \<Rightarrow> nat" where
  "field_value s = foldl (\<lambda>acc c. 2 * acc + (if c = CHR ''1'' then 1 else 0)) 0 s"

definition field_signed :: "string \<Rightarrow> int" where
  "field_signed s =
     (if 2 * field_value s < 2 ^ length s then int (field_value s)
      else int (field_value s) - 2 ^ length s)"

section \<open>The label of a line\<close>

text \<open>
  The label that a source line defines, said without the program's functions: the line
  up to its comment sign, trimmed, contains a colon, and the label is the trimmed text
  before the first colon.
\<close>

definition label_of :: "string \<Rightarrow> string option" where
  "label_of raw =
     (let line = strip (takeWhile (\<lambda>c. c \<noteq> CHR ''#'') raw) in
      if CHR '':'' \<in> set line then Some (strip (takeWhile (\<lambda>c. c \<noteq> CHR '':'') line))
      else None)"

section \<open>Facts about the text functions\<close>

lemma split_chr_length: "length (split_chr sep s) = Suc (length (filter (\<lambda>c. c = sep) s))"
  by (induction s) (auto split: list.splits)

lemma split_chr_two: "sep \<in> set s \<Longrightarrow> 2 \<le> length (split_chr sep s)"
proof -
  assume "sep \<in> set s"
  then have "filter (\<lambda>c. c = sep) s \<noteq> []"
    by (simp add: filter_empty_conv)
  then show ?thesis
    by (cases "filter (\<lambda>c. c = sep) s") (simp_all add: split_chr_length)
qed

lemma split_chr_not_Nil: "split_chr sep s \<noteq> []"
  using split_chr_length [of sep s] by auto

lemma split_chr_0: "split_chr sep s ! 0 = takeWhile (\<lambda>c. c \<noteq> sep) s"
  by (induction s) (auto simp: split_chr_not_Nil split: list.splits)

lemma split_chr_append: "sep \<notin> set p \<Longrightarrow> split_chr sep (p @ sep # q) = p # split_chr sep q"
  by (induction p) auto

lemma split_chr_1: "sep \<notin> set p \<Longrightarrow> split_chr sep (p @ sep # q) ! 1 = takeWhile (\<lambda>c. c \<noteq> sep) q"
  by (simp add: split_chr_append split_chr_0)

lemma isspace_not_colon: "isspace c \<Longrightarrow> c \<noteq> CHR '':''"
  by (auto simp: isspace_def)

lemma isspace_not_hash: "isspace c \<Longrightarrow> c \<noteq> CHR ''#''"
  by (auto simp: isspace_def)

lemma dropWhile_append_stop: "\<not> P c \<Longrightarrow> dropWhile P (a @ c # b) = dropWhile P a @ c # b"
  by (induction a) auto

lemma strip_around:
  assumes "\<not> isspace c"
  shows "strip (a @ c # b) = dropWhile isspace a @ c # rev (dropWhile isspace (rev b))"
proof -
  have "dropWhile isspace (rev b @ c # rev (dropWhile isspace a)) =
      dropWhile isspace (rev b) @ c # rev (dropWhile isspace a)"
    using assms by (rule dropWhile_append_stop)
  then show ?thesis
    using assms by (simp add: strip_def dropWhile_append_stop)
qed

lemma strip_Nil: "strip [] = []"
  by (simp add: strip_def)

lemma strip_dropWhile: "strip (dropWhile isspace s) = strip s"
  by (simp add: strip_def)

lemma rstrip_spaces: "list_all isspace ws \<Longrightarrow> rev (dropWhile isspace (rev ws)) = []"
  by (simp add: list_all_iff)

section \<open>Addresses of the instruction records\<close>

lemma scan_line_addresses:
  assumes "scan_line (labels, instructions, address) raw = (labels', instructions', address')"
    and "map fst instructions = map (\<lambda>i. b + 4 * int i) [0..<length instructions]"
    and "address = b + 4 * int (length instructions)"
  shows "map fst instructions' = map (\<lambda>i. b + 4 * int i) [0..<length instructions']
    \<and> address' = b + 4 * int (length instructions')"
  using assms by (auto simp: scan_line.simps Let_def split: if_splits)

lemma foldl_scan_line_addresses:
  assumes "foldl scan_line (labels, instructions, address) lines = (labels', instructions', address')"
    and "map fst instructions = map (\<lambda>i. b + 4 * int i) [0..<length instructions]"
    and "address = b + 4 * int (length instructions)"
  shows "map fst instructions' = map (\<lambda>i. b + 4 * int i) [0..<length instructions']
    \<and> address' = b + 4 * int (length instructions')"
  using assms
proof (induction lines arbitrary: labels instructions address)
  case Nil
  then show ?case by auto
next
  case (Cons raw lines)
  obtain l1 i1 a1 where step: "scan_line (labels, instructions, address) raw = (l1, i1, a1)"
    by (metis prod_cases3)
  from scan_line_addresses [OF step Cons.prems(2) Cons.prems(3)]
  have inv: "map fst i1 = map (\<lambda>i. b + 4 * int i) [0..<length i1]" "a1 = b + 4 * int (length i1)"
    by simp_all
  from Cons.prems(1) step have "foldl scan_line (l1, i1, a1) lines = (labels', instructions', address')"
    by simp
  from Cons.IH [OF this inv] show ?case .
qed

lemma scan_addresses:
  assumes "scan lines = (labels, instructions, address)"
  shows "map fst instructions = map (\<lambda>i. base_address + 4 * int i) [0..<length instructions]"
    and "address = base_address + 4 * int (length instructions)"
  using foldl_scan_line_addresses [of Map.empty "[]" base_address lines labels instructions address base_address]
    assms
  by (simp_all add: scan_def)

text \<open>
  C2. Whatever the source lines are, the record at index \<open>i\<close> (counted from 0) of the
  instruction list that the scan pass returns has the address \<open>0x00400000 + 4 * i\<close>:
  the addresses start at the base and go up by 4 from one record to the next.
\<close>

theorem parse_source_code_addresses:
  assumes "parse_source_code lines = (labels, instructions)"
    and "i < length instructions"
  shows "fst (instructions ! i) = 4194304 + 4 * int i"
proof -
  obtain address where s: "scan lines = (labels, instructions, address)"
    using assms(1) by (auto simp: parse_source_code_def split: prod.splits)
  have "map fst instructions ! i = map (\<lambda>i. base_address + 4 * int i) [0..<length instructions] ! i"
    using scan_addresses(1) [OF s] by simp
  then show ?thesis
    using assms(2) by (simp add: base_address_def)
qed

theorem parse_source_code_addresses_witness:
  "snd (parse_source_code [''L: ADD $1,$2,$3'', ''# only a comment'', ''J L'']) =
     [(4194304, ''ADD $1,$2,$3''), (4194308, ''J L'')]
   \<and> fst (snd (parse_source_code [''L: ADD $1,$2,$3'', ''# only a comment'', ''J L'']) ! 1) = 4194308"
proof -
  have v: "snd (parse_source_code [''L: ADD $1,$2,$3'', ''# only a comment'', ''J L'']) =
     [(4194304, ''ADD $1,$2,$3''), (4194308, ''J L'')]"
    by (simp add: parse_source_code_def scan_def scan_line.simps base_address_def strip_def isspace_def)
  have "(1::nat) < length (snd (parse_source_code [''L: ADD $1,$2,$3'', ''# only a comment'', ''J L'']))"
    by (simp add: v)
  from parse_source_code_addresses [OF prod.collapse [symmetric] this] v show ?thesis
    by simp
qed

section \<open>Labels\<close>

lemma scan_line_labels:
  "fst (scan_line (L, I, a) raw) = (case label_of raw of None \<Rightarrow> L | Some nm \<Rightarrow> L(nm \<mapsto> a))"
  by (auto simp: scan_line.simps label_of_def Let_def split_chr_0)

lemma scan_line_instructions:
  "\<exists>J. fst (snd (scan_line (L, I, a) raw)) = I @ J"
  by (auto simp: scan_line.simps Let_def)

lemma foldl_scan_line_labels:
  "Some nm \<notin> set (map label_of post) \<Longrightarrow> fst (foldl scan_line (L, I, a) post) nm = L nm"
proof (induction post arbitrary: L I a)
  case Nil
  then show ?case by simp
next
  case (Cons raw post)
  obtain L1 I1 a1 where step: "scan_line (L, I, a) raw = (L1, I1, a1)"
    by (metis prod_cases3)
  have "L1 = (case label_of raw of None \<Rightarrow> L | Some nm \<Rightarrow> L(nm \<mapsto> a))"
    using scan_line_labels [of L I a raw] step by simp
  moreover have "label_of raw \<noteq> Some nm"
    using Cons.prems by auto
  ultimately have "L1 nm = L nm"
    by (auto split: option.splits)
  moreover have "fst (foldl scan_line (L1, I1, a1) post) nm = L1 nm"
    using Cons.IH [of L1 I1 a1] Cons.prems by simp
  ultimately show ?case
    by (simp add: step)
qed

lemma foldl_scan_line_instructions:
  "\<exists>J. fst (snd (foldl scan_line (L, I, a) post)) = I @ J"
proof (induction post arbitrary: L I a)
  case Nil
  then show ?case by simp
next
  case (Cons raw post)
  obtain L1 I1 a1 where step: "scan_line (L, I, a) raw = (L1, I1, a1)"
    by (metis prod_cases3)
  obtain J1 where "I1 = I @ J1"
    using scan_line_instructions [of L I a raw] step by auto
  moreover obtain J where "fst (snd (foldl scan_line (L1, I1, a1) post)) = I1 @ J"
    using Cons.IH [of L1 I1 a1] by auto
  ultimately show ?case
    by (simp add: step)
qed

lemma scan_line_label_only:
  assumes "takeWhile (\<lambda>c. c \<noteq> CHR ''#'') raw = lbl @ CHR '':'' # ws"
    and "CHR '':'' \<notin> set lbl"
    and "list_all isspace ws"
  shows "scan_line (labels, instructions, address) raw = (labels(strip lbl \<mapsto> address), instructions, address)"
proof -
  have line: "strip (split_chr CHR ''#'' raw ! 0) = dropWhile isspace lbl @ [CHR '':'']"
    using assms(3) by (simp add: split_chr_0 assms(1) strip_around isspace_def rstrip_spaces)
  have nc: "CHR '':'' \<notin> set (dropWhile isspace lbl)"
    using assms(2) set_dropWhileD by fastforce
  have p0: "split_chr CHR '':'' (dropWhile isspace lbl @ [CHR '':'']) ! 0 = dropWhile isspace lbl"
    using nc by (simp add: split_chr_append)
  have p1: "split_chr CHR '':'' (dropWhile isspace lbl @ [CHR '':'']) ! Suc 0 = []"
    using nc by (simp add: split_chr_append)
  show ?thesis
    by (simp add: scan_line.simps line p0 p1 strip_Nil strip_dropWhile)
qed

lemma scan_append: "scan (pre @ post) = foldl scan_line (scan pre) post"
  by (simp add: scan_def)

lemma label_address_next:
  assumes bind: "label_of raw = Some nm"
    and later: "Some nm \<notin> set (map label_of post)"
    and pre: "scan pre = (L0, I0, a0)"
    and all: "scan (pre @ raw # post) = (L, I, a)"
  shows "L nm = Some a0" and "a0 = base_address + 4 * int (length I0)" and "take (length I0) I = I0"
    and "length I0 < length I \<longrightarrow> fst (I ! length I0) = a0"
    and "length I = length I0 \<longrightarrow> a = a0"
proof -
  obtain L1 I1 a1 where step: "scan_line (L0, I0, a0) raw = (L1, I1, a1)"
    by (metis prod_cases3)
  have L1: "L1 nm = Some a0"
    using scan_line_labels [of L0 I0 a0 raw] step bind by simp
  obtain J1 where I1: "I1 = I0 @ J1"
    using scan_line_instructions [of L0 I0 a0 raw] step by auto
  have rest: "foldl scan_line (L1, I1, a1) post = (L, I, a)"
    using all pre step by (simp add: scan_append)
  show "L nm = Some a0"
    using foldl_scan_line_labels [OF later, of L1 I1 a1] rest L1 by simp
  show a0: "a0 = base_address + 4 * int (length I0)"
    using scan_addresses(2) [OF pre] .
  obtain J where I: "I = I1 @ J"
    using foldl_scan_line_instructions [of L1 I1 a1 post] rest by auto
  show "take (length I0) I = I0"
    by (simp add: I I1)
  show "length I0 < length I \<longrightarrow> fst (I ! length I0) = a0"
  proof
    assume lt: "length I0 < length I"
    have "map fst I ! length I0 = map (\<lambda>i. base_address + 4 * int i) [0..<length I] ! length I0"
      using scan_addresses(1) [OF all] by simp
    then show "fst (I ! length I0) = a0"
      using lt a0 by simp
  qed
  show "length I = length I0 \<longrightarrow> a = a0"
    using scan_addresses(2) [OF all] a0 by simp
qed

text \<open>
  C8. A line that, up to its comment, is a label \<open>lbl\<close>, a colon and nothing but white
  space makes the scan pass bind the (trimmed) label to the current address and leaves
  the instruction list and the address counter as they were. And for every line that
  defines a label \<open>nm\<close> which no later line defines again, with \<open>I0\<close> the records of the
  lines before it and \<open>a0\<close> the counter after them: the final table maps \<open>nm\<close> to
  \<open>a0 = 0x00400000 + 4 * length I0\<close>; the records \<open>I0\<close> are the first records of the
  final list \<open>I\<close>, so that the record at index \<open>length I0\<close>, when there is one, is the
  next one emitted, and its address is \<open>a0\<close>; when there is none (only label-only,
  empty or comment lines follow), \<open>a0\<close> is the final value of the counter, the
  address the next instruction would get.
\<close>

theorem label_only_line:
  "(takeWhile (\<lambda>c. c \<noteq> CHR ''#'') raw = lbl @ CHR '':'' # ws \<and> CHR '':'' \<notin> set lbl \<and> list_all isspace ws \<longrightarrow>
      scan_line (labels, instructions, address) raw = (labels(strip lbl \<mapsto> address), instructions, address))
   \<and> (label_of line = Some nm \<and> Some nm \<notin> set (map label_of post)
        \<and> scan pre = (L0, I0, a0) \<and> scan (pre @ line # post) = (L, I, a) \<longrightarrow>
      L nm = Some a0 \<and> a0 = 4194304 + 4 * int (length I0) \<and> take (length I0) I = I0
      \<and> (length I0 < length I \<longrightarrow> fst (I ! length I0) = a0)
      \<and> (length I = length I0 \<longrightarrow> a = a0))"
proof (intro conjI impI)
  assume "takeWhile (\<lambda>c. c \<noteq> CHR ''#'') raw = lbl @ CHR '':'' # ws \<and> CHR '':'' \<notin> set lbl \<and> list_all isspace ws"
  then show "scan_line (labels, instructions, address) raw = (labels(strip lbl \<mapsto> address), instructions, address)"
    by (simp add: scan_line_label_only)
next
  assume h: "label_of line = Some nm \<and> Some nm \<notin> set (map label_of post)
        \<and> scan pre = (L0, I0, a0) \<and> scan (pre @ line # post) = (L, I, a)"
  then have b: "label_of line = Some nm" and l: "Some nm \<notin> set (map label_of post)"
    and p: "scan pre = (L0, I0, a0)" and f: "scan (pre @ line # post) = (L, I, a)"
    by simp_all
  note r = label_address_next [OF b l p f]
  show "L nm = Some a0" by (rule r(1))
  show "a0 = 4194304 + 4 * int (length I0)" using r(2) by (simp add: base_address_def)
  show "take (length I0) I = I0" by (rule r(3))
  { assume "length I0 < length I" then show "fst (I ! length I0) = a0" using r(4) by simp }
  { assume "length I = length I0" then show "a = a0" using r(5) by simp }
qed

theorem label_only_line_witness:
  "scan_line (Map.empty, [], 4194304) ''L:  # here'' = ([''L'' \<mapsto> 4194304], [], 4194304)
   \<and> fst (scan [''ADD $1,$2,$3'', ''L:  # here'', ''J L'']) ''L'' = Some 4194308
   \<and> fst (fst (snd (scan [''ADD $1,$2,$3'', ''L:  # here'', ''J L''])) ! 1) = 4194308"
proof -
  have e: "scan [''ADD $1,$2,$3''] = (Map.empty, [(4194304, ''ADD $1,$2,$3'')], 4194308)"
    by (simp add: scan_def scan_line.simps base_address_def strip_def isspace_def)
  have f: "scan ([''ADD $1,$2,$3''] @ ''L:  # here'' # [''J L'']) =
      (fst (scan [''ADD $1,$2,$3'', ''L:  # here'', ''J L'']),
       fst (snd (scan [''ADD $1,$2,$3'', ''L:  # here'', ''J L''])),
       snd (snd (scan [''ADD $1,$2,$3'', ''L:  # here'', ''J L''])))"
    by simp
  have n: "length (fst (snd (scan [''ADD $1,$2,$3'', ''L:  # here'', ''J L'']))) = 2"
    by (simp add: scan_def scan_line.simps base_address_def strip_def isspace_def)
  have b: "label_of ''L:  # here'' = Some ''L''"
    by (simp add: label_of_def strip_def isspace_def)
  have l: "Some ''L'' \<notin> set (map label_of [''J L''])"
    by (simp add: label_of_def strip_def isspace_def)
  have s: "strip ''L'' = ''L''"
    by (simp add: strip_def isspace_def)
  from label_only_line [where raw = "''L:  # here''" and lbl = "''L''" and ws = "''  ''"
      and labels = Map.empty and instructions = "[]" and address = 4194304
      and line = "''L:  # here''" and nm = "''L''" and post = "[''J L'']"
      and pre = "[''ADD $1,$2,$3'']" and ?L0.0 = Map.empty and ?I0.0 = "[(4194304, ''ADD $1,$2,$3'')]"
      and ?a0.0 = 4194308
      and L = "fst (scan [''ADD $1,$2,$3'', ''L:  # here'', ''J L''])"
      and I = "fst (snd (scan [''ADD $1,$2,$3'', ''L:  # here'', ''J L'']))"
      and a = "snd (snd (scan [''ADD $1,$2,$3'', ''L:  # here'', ''J L'']))"]
    e f n b l s
  show ?thesis
    by (simp add: isspace_def)
qed

text \<open>
  C10. A line whose text before its first colon is empty or only white space binds the
  empty string as a label to the current address: the step of the scan pass is a total
  function, there is no branch that rejects the line.
\<close>

theorem scan_line_empty_label:
  assumes "list_all isspace ws"
  shows "fst (scan_line (labels, instructions, address) (ws @ CHR '':'' # rest)) = labels([] \<mapsto> address)"
proof -
  have "takeWhile (\<lambda>c. c \<noteq> CHR ''#'') (ws @ CHR '':'' # rest) = ws @ CHR '':'' # takeWhile (\<lambda>c. c \<noteq> CHR ''#'') rest"
    using assms by (simp add: list_all_iff isspace_not_hash)
  then have "strip (takeWhile (\<lambda>c. c \<noteq> CHR ''#'') (ws @ CHR '':'' # rest)) =
      CHR '':'' # rev (dropWhile isspace (rev (takeWhile (\<lambda>c. c \<noteq> CHR ''#'') rest)))"
    using assms by (simp add: strip_around isspace_def list_all_iff)
  then have "label_of (ws @ CHR '':'' # rest) = Some []"
    by (simp add: label_of_def strip_Nil)
  then show ?thesis
    by (simp add: scan_line_labels)
qed

theorem scan_line_empty_label_witness:
  "list_all isspace ''  ''
   \<and> fst (scan_line (Map.empty, [], 4194304) ''  : ADD $1,$2,$3'') = [[] \<mapsto> 4194304]"
  using scan_line_empty_label [of "''  ''" Map.empty "[]" 4194304 "'' ADD $1,$2,$3''"]
  by (simp add: isspace_def)

text \<open>
  C9, at the line \<^verbatim>\<open>A: B: ADD $1,$2,$3\<close>. The label is the text before the first colon,
  but the instruction text that the scan pass keeps is \<^verbatim>\<open>line.split(':')[1]\<close>, the
  piece between the first and the second colon: the record holds \<^verbatim>\<open>B\<close>, and the text
  after the second colon is lost.
\<close>

theorem parse_source_code_two_colons:
  "parse_source_code [''A: B: ADD $1,$2,$3''] = ([''A'' \<mapsto> 4194304], [(4194304, ''B'')])"
  by (simp add: parse_source_code_def scan_def scan_line.simps base_address_def strip_def isspace_def)

section \<open>Binary fields\<close>

text \<open>
  Where the number fits, \<^verbatim>\<open>format(n, '0Wb')\<close> is the field of width \<open>W\<close> that holds
  \<open>n\<close>; and a mask with \<^verbatim>\<open>0xFFFF\<close> is the remainder modulo \<open>2 ^ 16\<close>.
\<close>

lemma bits_field_zero: "bits_field w 0 = replicate w CHR ''0''"
  by (induction w) (simp_all add: replicate_append_same)

lemma length_bits_field: "length (bits_field w n) = w"
  by (induction w arbitrary: n) simp_all

lemma zfill_snoc: "zfill (Suc w) (s @ [c]) = zfill w s @ [c]"
  by (simp add: zfill_def)

lemma zfill_bin_digits:
  "0 < w \<Longrightarrow> m < 2 ^ w \<Longrightarrow> zfill w (bin_digits m) = bits_field w m"
proof (induction w arbitrary: m)
  case 0
  then show ?case by simp
next
  case (Suc w)
  show ?case
  proof (cases "m < 2")
    case True
    then have "m = 0 \<or> m = 1" by auto
    then show ?thesis
      by (auto simp: bin_digits.simps [of m] zfill_def bit_chr_def bits_field_zero)
  next
    case False
    with Suc.prems have w: "0 < w"
      by (cases w) auto
    from Suc.prems have "m div 2 < 2 ^ w"
      by auto
    from Suc.IH [OF w this] False show ?thesis
      by (auto simp: bin_digits.simps [of m] zfill_snoc bit_chr_def)
  qed
qed

lemma format_b_bits_field:
  "0 < w \<Longrightarrow> 0 \<le> n \<Longrightarrow> n < 2 ^ w \<Longrightarrow> format_b w n = bits_field w (nat n)"
  by (simp add: format_b_def zfill_bin_digits nat_less_iff)

lemma field_value_snoc:
  "field_value (s @ [c]) = 2 * field_value s + (if c = CHR ''1'' then 1 else 0)"
  by (simp add: field_value_def)

lemma field_value_bits_field: "field_value (bits_field w n) = n mod 2 ^ w"
proof (induction w arbitrary: n)
  case 0
  then show ?case by (simp add: field_value_def)
next
  case (Suc w)
  have "n mod (2 * 2 ^ w) = 2 * (n div 2 mod 2 ^ w) + n mod 2"
    by (simp add: mod_mult2_eq)
  then show ?case
    by (auto simp: field_value_snoc Suc.IH odd_iff_mod_2_eq_one)
qed

lemma mask16: "(x::int) AND 65535 = x mod 65536"
proof -
  have "x AND mask 16 = x mod 2 ^ 16"
    by (simp only: take_bit_eq_mask [symmetric] take_bit_eq_mod)
  then show ?thesis
    by (simp add: mask_eq_exp_minus_1)
qed

lemma field_signed_16:
  assumes "- 32768 \<le> x" and "x < 32768"
  shows "field_signed (bits_field 16 (nat (x mod 65536))) = x"
proof -
  define y where "y = nat (x mod 65536)"
  have y: "y < 65536"
    by (simp add: y_def nat_less_iff)
  have s: "field_signed (bits_field 16 y) = (if y < 32768 then int y else int y - 65536)"
    using y by (simp add: field_signed_def field_value_bits_field length_bits_field)
  show ?thesis
  proof (cases "0 \<le> x")
    case True
    with assms have "x mod 65536 = x" by simp
    with True assms have "int y = x" "y < 32768"
      by (simp_all add: y_def nat_less_iff)
    then show ?thesis
      using s by (simp add: y_def)
  next
    case False
    have "(x + 65536) mod 65536 = x + 65536"
      using False assms by (intro mod_pos_pos_trivial) simp_all
    then have "x mod 65536 = x + 65536"
      by simp
    with False assms have "int y = x + 65536" "\<not> y < 32768"
      by (simp_all add: y_def nat_less_iff)
    then show ?thesis
      using s by (simp add: y_def)
  qed
qed

lemma bits_field_numeral:
  "bits_field (numeral k) n =
     bits_field (pred_numeral k) (n div 2) @ [if odd n then CHR ''1'' else CHR ''0'']"
  by (simp add: numeral_eq_Suc)

section \<open>Branches\<close>

lemmas table_defs = instruction_set_R_def instruction_set_I_def instruction_set_J_def

lemmas py_defs = then_py_def py_index_def py_lookup_def

lemma encode_branch:
  assumes "re_split instruction = opcode # rest"
    and "upper opcode = ''BEQ'' \<or> upper opcode = ''BNE''"
    and "2 < length rest"
    and "labels (rest ! 2) = Some target"
    and "reg_to_bin (rest ! 0) = Inr rt"
    and "reg_to_bin (rest ! 1) = Inr rs"
  shows "instruction_to_machine_code instruction labels current_address =
     Inr (Some ((if upper opcode = ''BEQ'' then ''000100'' else ''000101'') @ rs @ rt @
       format_b 16 (drop_bit 2 (target - current_address - 4) AND 65535)))"
proof -
  have len: "0 < length rest" "Suc 0 < length rest" "rest \<noteq> []"
    using assms(3) by auto
  from assms(2) show ?thesis
  proof
    assume "upper opcode = ''BEQ''"
    with assms(1,3-6) len show ?thesis
      by (simp add: instruction_to_machine_code_def encode_I_def py_defs table_defs Let_def)
  next
    assume "upper opcode = ''BNE''"
    with assms(1,3-6) len show ?thesis
      by (simp add: instruction_to_machine_code_def encode_I_def py_defs table_defs Let_def)
  qed
qed

lemma scan_line_aligned:
  assumes "scan_line (L, I, a) raw = (L', I', a')"
    and "\<forall>nm t. L nm = Some t \<longrightarrow> 4 dvd t"
    and "4 dvd a"
  shows "(\<forall>nm t. L' nm = Some t \<longrightarrow> 4 dvd t) \<and> 4 dvd a'"
  using assms by (auto simp: scan_line.simps Let_def split: if_splits)

lemma foldl_scan_line_aligned:
  assumes "foldl scan_line (L, I, a) lines = (L', I', a')"
    and "\<forall>nm t. L nm = Some t \<longrightarrow> 4 dvd t"
    and "4 dvd a"
  shows "(\<forall>nm t. L' nm = Some t \<longrightarrow> 4 dvd t) \<and> 4 dvd a'"
  using assms
proof (induction lines arbitrary: L I a)
  case Nil
  then show ?case by auto
next
  case (Cons raw lines)
  obtain L1 I1 a1 where step: "scan_line (L, I, a) raw = (L1, I1, a1)"
    by (metis prod_cases3)
  from scan_line_aligned [OF step Cons.prems(2) Cons.prems(3)]
  have inv: "\<forall>nm t. L1 nm = Some t \<longrightarrow> 4 dvd t" "4 dvd a1"
    by simp_all
  from Cons.prems(1) step have "foldl scan_line (L1, I1, a1) lines = (L', I', a')"
    by simp
  from Cons.IH [OF this inv] show ?case .
qed

lemma parse_source_code_aligned:
  assumes "parse_source_code lines = (labels, instructions)"
  shows "labels nm = Some t \<Longrightarrow> 4 dvd t"
    and "(x, text) \<in> set instructions \<Longrightarrow> 4 dvd x"
proof -
  obtain address where s: "scan lines = (labels, instructions, address)"
    using assms by (auto simp: parse_source_code_def split: prod.splits)
  have "(\<forall>nm t. labels nm = Some t \<longrightarrow> 4 dvd t) \<and> 4 dvd address"
    using foldl_scan_line_aligned [of Map.empty "[]" base_address lines labels instructions address] s
    by (simp add: scan_def base_address_def)
  then show "labels nm = Some t \<Longrightarrow> 4 dvd t"
    by simp
  assume "(x, text) \<in> set instructions"
  then obtain i where i: "i < length instructions" "instructions ! i = (x, text)"
    by (auto simp: in_set_conv_nth)
  have "map fst instructions ! i = map (\<lambda>i. base_address + 4 * int i) [0..<length instructions] ! i"
    using scan_addresses(1) [OF s] by simp
  with i have "x = base_address + 4 * int i"
    by simp
  then show "4 dvd x"
    by (simp add: base_address_def)
qed

lemma shift_back:
  assumes "4 dvd (t :: int)" and "4 dvd c"
  shows "drop_bit 2 (t - c - 4) * 4 + (c + 4) = t"
proof -
  have "4 dvd (t - c - 4)"
    using assms by simp
  then have "(t - c - 4) div 4 * 4 = t - c - 4"
    by simp
  then show ?thesis
    by (simp add: drop_bit_eq_div)
qed

text \<open>
  C1. Take a \<^verbatim>\<open>BEQ\<close> or \<^verbatim>\<open>BNE\<close> instruction (in any letter case) whose third
  operand is a label of the label table and whose two register operands \<^verbatim>\<open>reg_to_bin\<close>
  accepts. Then the encoder returns the opcode, the two register fields and, as the
  last 16 characters, the field that holds \<^verbatim>\<open>(target - current_address - 4) >> 2\<close>
  masked with \<^verbatim>\<open>0xFFFF\<close>. When the label table and the instruction record are those
  that the scan pass returns for some source, and the word offset is in the signed
  16-bit range, then reading the field in two's complement, multiplying by 4 and adding
  \<open>current_address + 4\<close> gives back the address of the label.
\<close>

theorem branch_offset_round_trip:
  assumes "re_split instruction = opcode # rest"
    and "upper opcode = ''BEQ'' \<or> upper opcode = ''BNE''"
    and "2 < length rest"
    and "labels (rest ! 2) = Some target"
    and "reg_to_bin (rest ! 0) = Inr rt"
    and "reg_to_bin (rest ! 1) = Inr rs"
  shows "instruction_to_machine_code instruction labels current_address =
       Inr (Some ((if upper opcode = ''BEQ'' then ''000100'' else ''000101'') @ rs @ rt @
         bits_field 16 (nat (drop_bit 2 (target - current_address - 4) AND 65535))))
     \<and> (parse_source_code lines = (labels, instructions)
          \<and> (current_address, instruction) \<in> set instructions
          \<and> - 32768 \<le> drop_bit 2 (target - current_address - 4)
          \<and> drop_bit 2 (target - current_address - 4) < 32768 \<longrightarrow>
        field_signed (bits_field 16 (nat (drop_bit 2 (target - current_address - 4) AND 65535))) * 4
          + (current_address + 4) = target)"
proof (intro conjI impI)
  have "0 \<le> drop_bit 2 (target - current_address - 4) mod 65536"
    and "drop_bit 2 (target - current_address - 4) mod 65536 < 2 ^ 16"
    by simp_all
  then have "format_b 16 (drop_bit 2 (target - current_address - 4) AND 65535) =
      bits_field 16 (nat (drop_bit 2 (target - current_address - 4) AND 65535))"
    by (simp only: mask16 format_b_bits_field)
  then show "instruction_to_machine_code instruction labels current_address =
       Inr (Some ((if upper opcode = ''BEQ'' then ''000100'' else ''000101'') @ rs @ rt @
         bits_field 16 (nat (drop_bit 2 (target - current_address - 4) AND 65535))))"
    using encode_branch [of instruction opcode rest labels target rt rs current_address] assms
    by simp
next
  assume h: "parse_source_code lines = (labels, instructions)
          \<and> (current_address, instruction) \<in> set instructions
          \<and> - 32768 \<le> drop_bit 2 (target - current_address - 4)
          \<and> drop_bit 2 (target - current_address - 4) < 32768"
  then have p: "parse_source_code lines = (labels, instructions)"
    and m: "(current_address, instruction) \<in> set instructions"
    by simp_all
  have "4 dvd target" "4 dvd current_address"
    using parse_source_code_aligned [OF p] m assms(4) by blast+
  then have "drop_bit 2 (target - current_address - 4) * 4 + (current_address + 4) = target"
    by (rule shift_back)
  moreover have "field_signed (bits_field 16 (nat (drop_bit 2 (target - current_address - 4) mod 65536)))
      = drop_bit 2 (target - current_address - 4)"
    using h by (intro field_signed_16) simp_all
  ultimately show "field_signed (bits_field 16 (nat (drop_bit 2 (target - current_address - 4) AND 65535))) * 4
          + (current_address + 4) = target"
    by (simp only: mask16)
qed

theorem branch_offset_round_trip_witness:
  "instruction_to_machine_code ''BEQ $1,$2,LOOP''
      (fst (parse_source_code [''LOOP: ADD $1,$2,$3'', ''BEQ $1,$2,LOOP''])) 4194308 =
     Inr (Some ''00010000010000011111111111111110'')
   \<and> field_signed ''1111111111111110'' * 4 + (4194308 + 4) = 4194304"
proof -
  have p: "parse_source_code [''LOOP: ADD $1,$2,$3'', ''BEQ $1,$2,LOOP''] =
      (fst (parse_source_code [''LOOP: ADD $1,$2,$3'', ''BEQ $1,$2,LOOP'']),
       [(4194304, ''ADD $1,$2,$3''), (4194308, ''BEQ $1,$2,LOOP'')])"
    by (simp add: parse_source_code_def scan_def scan_line.simps base_address_def strip_def isspace_def)
  have m: "(4194308, ''BEQ $1,$2,LOOP'') \<in> set [(4194304, ''ADD $1,$2,$3''), (4194308, ''BEQ $1,$2,LOOP'')]"
    by simp
  have s: "re_split ''BEQ $1,$2,LOOP'' = ''BEQ'' # [''$1'', ''$2'', ''LOOP'']"
    by (simp add: isspace_def)
  have u: "upper ''BEQ'' = ''BEQ'' \<or> upper ''BEQ'' = ''BNE''"
    by (simp add: upper_def upper_chr_def)
  have n: "2 < length [''$1'', ''$2'', ''LOOP'']"
    by simp
  have l: "fst (parse_source_code [''LOOP: ADD $1,$2,$3'', ''BEQ $1,$2,LOOP'']) ([''$1'', ''$2'', ''LOOP''] ! 2) = Some 4194304"
    by (simp add: parse_source_code_def scan_def scan_line.simps base_address_def strip_def isspace_def)
  have r1: "reg_to_bin ([''$1'', ''$2'', ''LOOP''] ! 0) = Inr ''00001''"
    by code_simp
  have r2: "reg_to_bin ([''$1'', ''$2'', ''LOOP''] ! 1) = Inr ''00010''"
    by code_simp
  have f: "bits_field 16 (nat (drop_bit 2 (4194304 - 4194308 - 4) AND 65535)) = ''1111111111111110''"
    by (simp add: mask16 drop_bit_eq_div bits_field_numeral)
  have b: "- 32768 \<le> drop_bit 2 (4194304 - 4194308 - 4 :: int) \<and> drop_bit 2 (4194304 - 4194308 - 4 :: int) < 32768"
    by (simp add: drop_bit_eq_div)
  note t = branch_offset_round_trip [where instruction = "''BEQ $1,$2,LOOP''"
      and opcode = "''BEQ''" and rest = "[''$1'', ''$2'', ''LOOP'']"
      and labels = "fst (parse_source_code [''LOOP: ADD $1,$2,$3'', ''BEQ $1,$2,LOOP''])"
      and target = 4194304 and rt = "''00001''" and rs = "''00010''"
      and current_address = 4194308
      and lines = "[''LOOP: ADD $1,$2,$3'', ''BEQ $1,$2,LOOP'']"
      and instructions = "[(4194304, ''ADD $1,$2,$3''), (4194308, ''BEQ $1,$2,LOOP'')]",
      OF s u n l r1 r2]
  from t p m f b show ?thesis
    by (simp add: upper_def upper_chr_def)
qed

section \<open>Unknown mnemonics\<close>

lemma re_split_not_Nil: "re_split s \<noteq> []"
  by (cases s) (auto split: list.splits)

text \<open>
  C3, what the code does with a first token that, in upper case, is in none of the
  three tables: no branch of the \<^verbatim>\<open>if\<close>/\<^verbatim>\<open>elif\<close> chain is taken, there is no
  \<^verbatim>\<open>else\<close>, and the function returns \<^verbatim>\<open>None\<close> without raising anything. (The caller
  \<^verbatim>\<open>assemble\<close> then writes the text \<^verbatim>\<open>None\<close> where the word should be.)
\<close>

theorem unknown_mnemonic_returns_None:
  assumes "upper (hd (re_split instruction)) \<notin>
      dom instruction_set_R \<union> dom instruction_set_I \<union> dom instruction_set_J"
  shows "instruction_to_machine_code instruction labels current_address = Inr None"
proof -
  obtain opcode rest where parts: "re_split instruction = opcode # rest"
    using re_split_not_Nil [of instruction] by (cases "re_split instruction") auto
  with assms show ?thesis
    by (simp add: instruction_to_machine_code_def py_defs)
qed

theorem unknown_mnemonic_returns_None_witness:
  "instruction_to_machine_code ''XYZ $t0,$t1,$t2'' Map.empty 4194304 = Inr None"
proof -
  have "re_split ''XYZ $t0,$t1,$t2'' = [''XYZ'', ''$t0'', ''$t1'', ''$t2'']"
    by (simp add: isspace_def)
  then have "upper (hd (re_split ''XYZ $t0,$t1,$t2'')) \<notin>
      dom instruction_set_R \<union> dom instruction_set_I \<union> dom instruction_set_J"
    by (simp add: upper_def upper_chr_def table_defs)
  then show ?thesis
    by (rule unknown_mnemonic_returns_None)
qed

section \<open>Register operands\<close>

lemma set_dropWhile_or: "x \<in> set xs \<Longrightarrow> x \<in> set (dropWhile P xs) \<or> P x"
  by (induction xs) (auto split: if_splits)

lemma set_int_strip_or: "c \<in> set s \<Longrightarrow> c \<in> set (int_strip s) \<or> int_space c"
proof -
  assume "c \<in> set s"
  then have "c \<in> set (rev (dropWhile int_space s)) \<or> int_space c"
    using set_dropWhile_or [of c s int_space] by simp
  then show ?thesis
    using set_dropWhile_or [of c "rev (dropWhile int_space s)" int_space]
    by (auto simp: int_strip_def)
qed

lemma int_strip_Nil: "int_strip [] = []"
  by (simp add: int_strip_def)

lemma digits_ok_chars: "digits_ok s \<Longrightarrow> x \<in> set s \<Longrightarrow> is_digit x \<or> x = CHR ''_''"
proof (induction s rule: digits_ok.induct)
  case 1
  then show ?case by simp
next
  case (2 c cs)
  show ?case
  proof (cases cs)
    case Nil
    with "2.prems" show ?thesis by simp
  next
    case (Cons d ds)
    show ?thesis
    proof (cases "d = CHR ''_''")
      case True
      with "2.prems"(1) Cons have ok: "is_digit c" "digits_ok ds"
        by simp_all
      from "2.prems"(2) Cons have "x = c \<or> x = d \<or> x \<in> set ds"
        by auto
      with ok True "2.IH"(1) [OF Cons True] show ?thesis
        by auto
    next
      case False
      with "2.prems"(1) Cons have ok: "is_digit c" "digits_ok cs"
        by simp_all
      from "2.prems"(2) have "x = c \<or> x \<in> set cs"
        by auto
      with ok "2.IH"(2) [OF Cons False] show ?thesis
        by auto
    qed
  qed
qed

lemma py_int_error: "py_int s = Inl e \<Longrightarrow> e = ValueError"
  by (auto simp: py_int_def split: list.splits if_splits)

lemma py_int_chars:
  assumes "py_int s = Inr n" and "c \<in> set s"
  shows "is_digit c \<or> int_space c \<or> c \<in> set ''+-_''"
proof (cases "int_space c")
  case True
  then show ?thesis by simp
next
  case False
  with assms(2) have c: "c \<in> set (int_strip s)"
    using set_int_strip_or by blast
  then obtain x xs where x: "int_strip s = x # xs"
    by (cases "int_strip s") auto
  show ?thesis
  proof (cases "x = CHR ''-'' \<or> x = CHR ''+''")
    case True
    with assms(1) x have "digits_ok xs"
      by (auto simp: py_int_def literal_ok_def simp del: digits_ok.simps split: if_splits)
    with c x True show ?thesis
      using digits_ok_chars [of xs c] by auto
  next
    case False
    with assms(1) x have "digits_ok (x # xs)"
      by (auto simp: py_int_def literal_ok_def simp del: digits_ok.simps split: if_splits)
    with c x show ?thesis
      using digits_ok_chars [of "x # xs" c] by auto
  qed
qed

text \<open>
  C6 as it is stated fails: \<^verbatim>\<open>reg_to_bin\<close> drops the first character of the token
  without looking at it and never compares the number with a bound, so \<^verbatim>\<open>x5\<close> and
  \<^verbatim>\<open>$32\<close> are both accepted, the second as a field of six characters.
\<close>

theorem reg_to_bin_unchecked:
  "reg_to_bin ''x5'' = Inr ''00101'' \<and> reg_to_bin ''$32'' = Inr ''100000''"
  by code_simp

text \<open>
  C6, amended. \<^verbatim>\<open>reg_to_bin\<close> fails, with Python's \<^verbatim>\<open>ValueError\<close>, when the token
  without its first character is not an integer literal for \<^verbatim>\<open>int()\<close>: in particular
  when that rest contains a character that is neither a digit, a sign, an underscore
  nor white space, and when the token has no second character. The first character
  itself is ignored: the result is the same with any other character in its place.
  When the token is \<^verbatim>\<open>$\<close> followed by an integer literal of a value in 0..31, the
  result is the field of 5 bits that holds the value.
\<close>

theorem reg_to_bin_fails_or_encodes:
  "(py_int (drop 1 reg) = Inl e \<longrightarrow> reg_to_bin reg = Inl e \<and> e = ValueError)
   \<and> (c \<in> set (drop 1 reg) \<and> \<not> is_digit c \<and> \<not> int_space c \<and> c \<notin> set ''+-_'' \<longrightarrow>
        reg_to_bin reg = Inl ValueError)
   \<and> (length reg \<le> 1 \<longrightarrow> reg_to_bin reg = Inl ValueError)
   \<and> reg_to_bin (first # s) = reg_to_bin (CHR ''$'' # s)
   \<and> (reg = CHR ''$'' # s \<and> py_int s = Inr n \<and> 0 \<le> n \<and> n < 32 \<longrightarrow>
        reg_to_bin reg = Inr (bits_field 5 (nat n)))"
proof (intro conjI impI)
  assume "py_int (drop 1 reg) = Inl e"
  then show "reg_to_bin reg = Inl e" and "e = ValueError"
    by (simp_all add: reg_to_bin_def then_py_def py_int_error)
next
  assume h: "c \<in> set (drop 1 reg) \<and> \<not> is_digit c \<and> \<not> int_space c \<and> c \<notin> set ''+-_''"
  have "py_int (drop 1 reg) = Inl ValueError"
  proof (cases "py_int (drop 1 reg)")
    case (Inl e)
    then show ?thesis using py_int_error by blast
  next
    case (Inr n)
    with h show ?thesis
      using py_int_chars [of "drop 1 reg" n c] by blast
  qed
  then show "reg_to_bin reg = Inl ValueError"
    by (simp add: reg_to_bin_def then_py_def)
next
  assume "length reg \<le> 1"
  then have "drop 1 reg = []"
    by simp
  then show "reg_to_bin reg = Inl ValueError"
    by (simp add: reg_to_bin_def then_py_def py_int_def int_strip_Nil)
next
  show "reg_to_bin (first # s) = reg_to_bin (CHR ''$'' # s)"
    by (simp add: reg_to_bin_def)
next
  assume "reg = CHR ''$'' # s \<and> py_int s = Inr n \<and> 0 \<le> n \<and> n < 32"
  then show "reg_to_bin reg = Inr (bits_field 5 (nat n))"
    by (simp add: reg_to_bin_def then_py_def format_b_bits_field)
qed

theorem reg_to_bin_fails_or_encodes_witness:
  "reg_to_bin ''$t0'' = Inl ValueError \<and> reg_to_bin ''$'' = Inl ValueError
   \<and> reg_to_bin ''$8'' = Inr ''01000''"
proof -
  have t: "CHR ''t'' \<in> set (drop 1 ''$t0'') \<and> \<not> is_digit CHR ''t'' \<and> \<not> int_space CHR ''t''
      \<and> CHR ''t'' \<notin> set ''+-_''"
    by (simp add: is_digit_def int_space_def)
  have e: "length ''$'' \<le> 1"
    by simp
  have v: "''$8'' = CHR ''$'' # ''8'' \<and> py_int ''8'' = Inr 8 \<and> (0::int) \<le> 8 \<and> (8::int) < 32"
    by (simp add: py_int_def literal_ok_def int_strip_def int_space_def is_digit_def
        digits_value_def digit_val_def)
  have f: "bits_field 5 (nat 8) = ''01000''"
    by (simp add: bits_field_numeral)
  have 1: "reg_to_bin ''$t0'' = Inl ValueError"
    by (rule reg_to_bin_fails_or_encodes [of "''$t0''" _ "CHR ''t''",
          THEN conjunct2, THEN conjunct1, THEN mp, OF t])
  have 2: "reg_to_bin ''$'' = Inl ValueError"
    by (rule reg_to_bin_fails_or_encodes [of "''$''",
          THEN conjunct2, THEN conjunct2, THEN conjunct1, THEN mp, OF e])
  have "reg_to_bin ''$8'' = Inr (bits_field 5 (nat 8))"
    by (rule reg_to_bin_fails_or_encodes [of "''$8''" _ _ _ "''8''" 8,
          THEN conjunct2, THEN conjunct2, THEN conjunct2, THEN conjunct2, THEN mp, OF v])
  with 1 2 f show ?thesis
    by simp
qed

section \<open>R-type words\<close>

lemma instruction_set_R_length: "instruction_set_R k = Some f \<Longrightarrow> length f = 6"
  by (auto simp: instruction_set_R_def split: if_splits)

lemma reg_to_bin_valid:
  "0 \<le> n \<Longrightarrow> n < 32 \<Longrightarrow> py_int s = Inr n \<Longrightarrow> reg_to_bin (CHR ''$'' # s) = Inr (bits_field 5 (nat n))"
  by (simp add: reg_to_bin_def then_py_def format_b_bits_field)

text \<open>
  C4 as it is stated fails: the registers of \<^verbatim>\<open>SLL $1,$2,$3,32\<close> are valid, but the
  shift amount 32 is written with six binary digits and the word has 33 characters.
\<close>

theorem sll_shamt_unchecked:
  "instruction_to_machine_code ''SLL $1,$2,$3,32'' Map.empty 4194304 =
     Inr (Some ''000000000100001100001100000000000'')
   \<and> length ''000000000100001100001100000000000'' = 33"
  by code_simp

text \<open>
  C4, amended. Take an instruction whose mnemonic, in upper case, is a key of the R-type
  table with the function code \<open>funct\<close>, whose first three operands are \<^verbatim>\<open>$\<close> and an
  integer literal in 0..31 (the numbers \<open>rd\<close>, \<open>rs\<close>, \<open>rt\<close>, in this order), and
  which, when the mnemonic is \<^verbatim>\<open>SLL\<close> or \<^verbatim>\<open>SRL\<close>, has an integer literal in 0..31 as
  its fourth operand, the number \<open>shamt\<close>; for the other mnemonics \<open>shamt\<close> is 0. Then
  the encoder returns the word \<^verbatim>\<open>000000\<close>, \<open>rs\<close>, \<open>rt\<close>, \<open>rd\<close>, \<open>shamt\<close> (each the
  field of 5 bits), \<open>funct\<close>: 32 characters, the first six \<^verbatim>\<open>000000\<close>, the last six
  the function code of the table.
\<close>

theorem encode_R_layout:
  assumes "re_split instruction = opcode # rest"
    and "instruction_set_R (upper opcode) = Some funct"
    and "2 < length rest"
    and "rest ! 0 = CHR ''$'' # sd" and "py_int sd = Inr rd" and "0 \<le> rd" and "rd < 32"
    and "rest ! 1 = CHR ''$'' # ss" and "py_int ss = Inr rs" and "0 \<le> rs" and "rs < 32"
    and "rest ! 2 = CHR ''$'' # st" and "py_int st = Inr rt" and "0 \<le> rt" and "rt < 32"
    and "upper opcode \<in> set [''SLL'', ''SRL''] \<longrightarrow>
           3 < length rest \<and> py_int (rest ! 3) = Inr shamt \<and> 0 \<le> shamt \<and> shamt < 32"
    and "upper opcode \<notin> set [''SLL'', ''SRL''] \<longrightarrow> shamt = 0"
    and "word = ''000000'' @ bits_field 5 (nat rs) @ bits_field 5 (nat rt) @ bits_field 5 (nat rd)
           @ bits_field 5 (nat shamt) @ funct"
  shows "instruction_to_machine_code instruction labels current_address = Inr (Some word)
     \<and> length word = 32 \<and> take 6 word = ''000000'' \<and> drop 26 word = funct"
proof -
  have len: "0 < length rest" "Suc 0 < length rest" "rest \<noteq> []"
    using assms(3) by auto
  have r0: "reg_to_bin (rest ! 0) = Inr (bits_field 5 (nat rd))"
    using assms(4-7) by (simp add: reg_to_bin_valid)
  have r1: "reg_to_bin (rest ! Suc 0) = Inr (bits_field 5 (nat rs))"
    using assms(8-11) by (simp add: reg_to_bin_valid)
  have r2: "reg_to_bin (rest ! 2) = Inr (bits_field 5 (nat rt))"
    using assms(12-15) by (simp add: reg_to_bin_valid)
  have sh: "(if upper opcode \<in> set [''SLL'', ''SRL'']
             then then_py (py_index rest 3) (\<lambda>r3. then_py (py_int r3) (\<lambda>n. Inr (format_b 5 n)))
             else Inr ''00000'') = Inr (bits_field 5 (nat shamt))"
  proof (cases "upper opcode \<in> set [''SLL'', ''SRL'']")
    case True
    with assms(16) have "3 < length rest" "py_int (rest ! 3) = Inr shamt" "0 \<le> shamt" "shamt < 32"
      by blast+
    with True show ?thesis
      by (simp add: py_defs format_b_bits_field)
  next
    case False
    with assms(17) have "shamt = 0"
      by blast
    with False show ?thesis
      by (simp add: bits_field_numeral)
  qed
  have "encode_R opcode rest = Inr (Some word)"
    unfolding encode_R_def sh
    using len assms(2,3) r0 r1 r2 by (simp add: py_defs assms(18))
  moreover have "upper opcode \<in> dom instruction_set_R"
    using assms(2) by auto
  ultimately have "instruction_to_machine_code instruction labels current_address = Inr (Some word)"
    using assms(1) by (simp add: instruction_to_machine_code_def py_defs)
  moreover have "length funct = 6"
    using assms(2) by (rule instruction_set_R_length)
  ultimately show ?thesis
    by (simp add: assms(18) length_bits_field)
qed

theorem encode_R_layout_witness:
  "instruction_to_machine_code ''sll $8, $9, $10, 3'' Map.empty 4194304 =
     Inr (Some ''00000001001010100100000011000000'')
   \<and> length ''00000001001010100100000011000000'' = 32"
proof -
  have u: "upper ''sll'' = ''SLL''"
    by code_simp
  show ?thesis
    using encode_R_layout [where instruction = "''sll $8, $9, $10, 3''" and opcode = "''sll''"
        and rest = "[''$8'', ''$9'', ''$10'', ''3'']" and funct = "''000000''"
        and sd = "''8''" and rd = 8 and ss = "''9''" and rs = 9 and st = "''10''" and rt = 10
        and shamt = 3 and word = "''00000001001010100100000011000000''"
        and labels = Map.empty and current_address = 4194304]
    by (simp add: u isspace_def table_defs py_int_def literal_ok_def int_strip_def int_space_def
        digits_value_def digit_val_def is_digit_def bits_field_numeral)
qed

section \<open>Loads and stores\<close>

text \<open>
  What the branch for \<^verbatim>\<open>LW\<close> and \<^verbatim>\<open>SW\<close> returns: the offset goes through
  \<^verbatim>\<open>format\<close> as it is. For an offset in 0..65535 that is the 16-bit field (lemma
  \<open>format_b_bits_field\<close>); for a negative one the text starts with a minus sign.
\<close>

lemma encode_load_store:
  assumes "re_split instruction = opcode # rest"
    and "upper opcode = ''LW'' \<or> upper opcode = ''SW''"
    and "2 < length rest"
    and "reg_to_bin (rest ! 0) = Inr rt"
    and "reg_to_bin (rest ! 1) = Inr rs"
    and "py_int (rest ! 2) = Inr offset"
  shows "instruction_to_machine_code instruction labels current_address =
     Inr (Some ((if upper opcode = ''LW'' then ''100011'' else ''101011'') @ rs @ rt @
       format_b 16 offset))"
proof -
  have len: "0 < length rest" "Suc 0 < length rest" "rest \<noteq> []"
    using assms(3) by auto
  from assms(2) show ?thesis
  proof
    assume "upper opcode = ''LW''"
    with assms(1,3-6) len show ?thesis
      by (simp add: instruction_to_machine_code_def encode_I_def py_defs table_defs Let_def)
  next
    assume "upper opcode = ''SW''"
    with assms(1,3-6) len show ?thesis
      by (simp add: instruction_to_machine_code_def encode_I_def py_defs table_defs Let_def)
  qed
qed

lemma format_b_negative: "n < 0 \<Longrightarrow> hd (format_b w n) = CHR ''-''"
  by (simp add: format_b_def)

text \<open>
  C5, at \<^verbatim>\<open>LW $8,$9,-4\<close>. The branch for \<^verbatim>\<open>LW\<close> and \<^verbatim>\<open>SW\<close> formats the offset with
  \<^verbatim>\<open>format(offset, '016b')\<close> and, unlike the two other I-type branches, does not mask it
  with \<^verbatim>\<open>0xFFFF\<close> first: a negative offset comes out as a minus sign and fifteen digits,
  not as the two's complement pattern \<^verbatim>\<open>1111111111111100\<close>.
\<close>

theorem lw_negative_offset:
  "instruction_to_machine_code ''LW $8,$9,-4'' Map.empty 4194304 =
     Inr (Some ''1000110100101000-000000000000100'')"
  by code_simp

section \<open>Jumps\<close>

text \<open>
  What the branch for \<^verbatim>\<open>J\<close> returns, and that for a target address below \<open>2 ^ 28\<close>
  that is a multiple of 4 the text after the opcode is the 26-bit field of
  \<^verbatim>\<open>target >> 2\<close>, from which the address is read back by a shift.
\<close>

lemma encode_jump:
  assumes "re_split instruction = opcode # rest"
    and "upper opcode = ''J''"
    and "rest \<noteq> []"
    and "labels (rest ! 0) = Some target"
  shows "instruction_to_machine_code instruction labels current_address =
     Inr (Some (''000010'' @ format_b 26 (drop_bit 2 target)))"
  using assms
  by (simp add: instruction_to_machine_code_def encode_J_def py_defs table_defs Let_def)

lemma jump_round_trip:
  assumes "0 \<le> target" and "target < 2 ^ 28" and "4 dvd target"
  shows "format_b 26 (drop_bit 2 target) = bits_field 26 (nat (drop_bit 2 target))"
    and "int (field_value (bits_field 26 (nat (drop_bit 2 target)))) * 4 = target"
proof -
  have d: "drop_bit 2 target = target div 4"
    by (simp add: drop_bit_eq_div)
  have r: "0 \<le> target div 4" "target div 4 < 2 ^ 26"
    using assms(1,2) by simp_all
  then show "format_b 26 (drop_bit 2 target) = bits_field 26 (nat (drop_bit 2 target))"
    by (simp add: d format_b_bits_field)
  have "nat (target div 4) < 2 ^ 26"
    using r by (simp add: nat_less_iff)
  then have "field_value (bits_field 26 (nat (target div 4))) = nat (target div 4)"
    by (simp add: field_value_bits_field)
  then show "int (field_value (bits_field 26 (nat (drop_bit 2 target)))) * 4 = target"
    using assms(3) r by (simp add: d)
qed

lemma fst_parse_source_code: "fst (parse_source_code lines) = fst (scan lines)"
  by (simp add: parse_source_code_def split: prod.splits)

lemma foldl_scan_line_replicate:
  assumes "\<And>L I a. scan_line (L, I, a) raw = (L, I @ [(a, text)], a + 4)"
  shows "foldl scan_line (L, I, a) (replicate n raw) =
     (L, I @ map (\<lambda>i. (a + 4 * int i, text)) [0..<n], a + 4 * int n)"
proof (induction n)
  case 0
  then show ?case by simp
next
  case (Suc n)
  have "replicate (Suc n) raw = replicate n raw @ [raw]"
    by (simp add: replicate_append_same)
  then show ?case
    by (simp add: Suc.IH assms)
qed

text \<open>
  C7, at a program of 66060288 instructions followed by the line \<^verbatim>\<open>L: J L\<close>, which
  puts the label \<^verbatim>\<open>L\<close> at the address \<^verbatim>\<open>0x10000000\<close>. The J-type branch formats
  \<^verbatim>\<open>target >> 2\<close> with \<^verbatim>\<open>format(address, '026b')\<close> and does not mask it: the shifted
  address \<open>2 ^ 26\<close> has 27 binary digits, none is cut off, and the word of the first
  instruction \<^verbatim>\<open>J L\<close> has 33 characters.
\<close>

theorem jump_target_not_truncated:
  "instruction_to_machine_code ''J L''
      (fst (parse_source_code (replicate 66060288 ''J L'' @ [''L: J L'']))) 4194304 =
     Inr (Some ''000010100000000000000000000000000'')
   \<and> length ''000010100000000000000000000000000'' = 33"
proof -
  have step: "scan_line (L, I, a) ''J L'' = (L, I @ [(a, ''J L'')], a + 4)" for L I a
    by (simp add: scan_line.simps strip_def isspace_def)
  have "scan (replicate 66060288 ''J L'') =
      (Map.empty, [] @ map (\<lambda>i. (base_address + 4 * int i, ''J L'')) [0..<66060288],
       base_address + 4 * int 66060288)"
    unfolding scan_def using step by (rule foldl_scan_line_replicate)
  then have "fst (scan (replicate 66060288 ''J L'' @ [''L: J L''])) ''L'' = Some 268435456"
    by (simp add: scan_append scan_line.simps strip_def isspace_def base_address_def Let_def)
  then have l: "fst (parse_source_code (replicate 66060288 ''J L'' @ [''L: J L''])) ''L'' = Some 268435456"
    by (simp add: fst_parse_source_code)
  have s: "re_split ''J L'' = [''J'', ''L'']"
    by (simp add: isspace_def)
  have f: "format_b 26 67108864 = ''100000000000000000000000000''"
    by (simp add: format_b_def zfill_def bin_digits.simps bit_chr_def)
  show ?thesis
    by (simp add: instruction_to_machine_code_def encode_J_def py_defs table_defs
        upper_def upper_chr_def Let_def isspace_def drop_bit_eq_div l f)
qed

end
